theory Spec2Isabelle
  imports Main "HOL-Library.AList" "HOL-Library.Char_ord" "HOL-Library.List_Lexorder"
begin

section \<open>Slackard: a polling chat bot (slackard.py)\<close>

text \<open>
  The development embeds the methods of class \<open>Slackard\<close> that decide the behaviour of
  the dispatch core: \<open>_init_connection\<close>, \<open>_fetch_messages_since\<close>,
  \<open>_resolve_channels\<close>, \<open>upload\<close>, the body of the loop of \<open>run\<close>, and the
  registration decorators \<open>subscribe\<close>, \<open>command\<close> and \<open>firehose\<close>.

  Python exceptions are values of type \<open>exn\<close>; a method that can raise returns
  \<open>exn + 'a\<close> or carries an \<open>exn option\<close> beside the state it leaves behind.
  The messaging service (package \<open>slacker\<close>), the regular expression library and the
  plugin handlers are not code of this program: they are parameters of the model.
\<close>

subsection \<open>Exceptions\<close>

datatype exn =
    KeyError string
  | AssertionError string
  | TypeError string
  | AttributeError string
  | Slacker_Error string
  | Other_Exception string
  | SlackardFatalError string
  | SlackardNonFatalError string

text \<open>The attribute \<open>e.message\<close> of an exception built from one argument.\<close>

fun message_of :: "exn \<Rightarrow> string" where
  "message_of (KeyError s) = s"
| "message_of (AssertionError s) = s"
| "message_of (TypeError s) = s"
| "message_of (AttributeError s) = s"
| "message_of (Slacker_Error s) = s"
| "message_of (Other_Exception s) = s"
| "message_of (SlackardFatalError s) = s"
| "message_of (SlackardNonFatalError s) = s"

text \<open>\<open>except slacker.Error\<close> catches exactly the service's own error class.\<close>

fun is_slacker_error :: "exn \<Rightarrow> bool" where
  "is_slacker_error (Slacker_Error s) = True"
| "is_slacker_error e = False"

subsection \<open>Messages, the service and the bot\<close>

text \<open>
  A message is the dictionary decoded from the service's answer. The loop reads the keys
  \<open>ts\<close>, \<open>text\<close>, \<open>subtype\<close> and \<open>username\<close>; the fetcher writes \<open>chan_id\<close> and
  \<open>channel\<close>. Timestamps are strings, compared as Python compares strings
  (lexicographically, character by character).
\<close>

type_synonym message = "string \<rightharpoonup> string"

text \<open>
  The two calls of the service that the modelled methods make:
  \<open>slack.channels.list()\<close>, whose body lists (name, id) pairs, and
  \<open>slack.channels.history(channel, oldest=...)\<close>, whose answer has the flag
  \<open>successful\<close> and the list \<open>body['messages']\<close>. Either may raise.
\<close>

record slack =
  channels_list :: "exn + (string \<times> string) list"
  channels_history :: "string \<Rightarrow> string option \<Rightarrow> exn + (bool \<times> message list)"

text \<open>
  The bot. \<open>channels\<close> is the dictionary from configured channel name to channel id, kept
  as an association list in the dictionary's iteration order (its keys are distinct);
  \<open>chan_ids\<close> is the dictionary from id to name, only ever looked up. Before
  \<open>_init_connection\<close> has run the values of \<open>channels\<close> are placeholders that no
  method reads.
\<close>

record slackard =
  botname :: string
  botnick :: string
  channels :: "(string \<times> string) list"
  chan_ids :: "string \<rightharpoonup> string"

subsection \<open>\<open>_init_connection\<close>\<close>

text \<open>
  The loop \<open>for x in self.channels: self.channels[x] = c_map[x];
  self.chan_ids[self.channels[x]] = x\<close>. A configured name that the service does not list
  raises \<open>KeyError\<close> and leaves the assignments made so far.
\<close>

fun populate :: "(string \<rightharpoonup> string) \<Rightarrow> string list \<Rightarrow> slackard \<Rightarrow> exn option \<times> slackard" where
  "populate c_map [] self = (None, self)"
| "populate c_map (x # xs) self =
     (case c_map x of
        None \<Rightarrow> (Some (KeyError x), self)
      | Some i \<Rightarrow>
          populate c_map xs
            (self\<lparr>channels := AList.update x i (channels self),
                 chan_ids := (chan_ids self)(i \<mapsto> x)\<rparr>))"

text \<open>
  The dictionary comprehension \<open>{c['name']: c['id'] for c in r.body['channels']}\<close>: a
  later entry of the listing overrides an earlier one of the same name.
\<close>

definition c_map_of :: "(string \<times> string) list \<Rightarrow> (string \<rightharpoonup> string)" where
  "c_map_of listing = map_of (rev listing)"

definition init_connection :: "slack \<Rightarrow> slackard \<Rightarrow> exn option \<times> slackard" where
  "init_connection svc self =
     (case channels_list svc of
        Inl e \<Rightarrow>
          (if is_slacker_error e then
             (if message_of e = ''invalid_auth''
              then (Some (SlackardFatalError ''Invalid API key''), self)
              else (Some e, self))
           else (Some (SlackardNonFatalError (message_of e)), self))
      | Inr listing \<Rightarrow>
          populate (c_map_of listing) (map fst (channels self)) (self\<lparr>chan_ids := Map.empty\<rparr>))"

text \<open>
  What the loop of \<open>main\<close> does with an exception that leaves \<open>bot.run()\<close>: a fatal
  error and an unclassified exception end the process with status 1, a non-fatal error
  is followed by a delay and a reconnection.
\<close>

datatype main_action = Exit nat | Reconnect

fun main_on_exception :: "exn \<Rightarrow> main_action" where
  "main_on_exception (SlackardFatalError s) = Exit 1"
| "main_on_exception (SlackardNonFatalError s) = Reconnect"
| "main_on_exception e = Exit 1"

subsection \<open>\<open>_fetch_messages_since\<close>\<close>

text \<open>
  The inner loop writes the channel's id and name into every message of one answer;
  \<open>self.chan_ids[channel]\<close> raises \<open>KeyError\<close> for an id without a name.
\<close>

definition tag :: "string \<Rightarrow> string \<Rightarrow> message \<Rightarrow> message" where
  "tag channel name m = m(''chan_id'' \<mapsto> channel, ''channel'' \<mapsto> name)"

fun tag_messages :: "slackard \<Rightarrow> string \<Rightarrow> message list \<Rightarrow> exn + message list" where
  "tag_messages self channel [] = Inr []"
| "tag_messages self channel (m # ms) =
     (case chan_ids self channel of
        None \<Rightarrow> Inl (KeyError channel)
      | Some name \<Rightarrow>
          (case tag_messages self channel ms of
             Inl e \<Rightarrow> Inl e
           | Inr r \<Rightarrow> Inr (tag channel name m # r)))"

text \<open>
  The outer loop over \<open>self.channels.values()\<close>, with the accumulator
  \<open>all_messages\<close>: one history call per channel, the assertion on its success, the
  tagging, \<open>messages.reverse()\<close> and \<open>all_messages.extend(messages)\<close>.
\<close>

fun fetch_channels ::
  "slackard \<Rightarrow> slack \<Rightarrow> string option \<Rightarrow> string list \<Rightarrow> message list \<Rightarrow> exn + message list" where
  "fetch_channels self svc oldest [] all_messages = Inr all_messages"
| "fetch_channels self svc oldest (channel # cs) all_messages =
     (case channels_history svc channel oldest of
        Inl e \<Rightarrow> Inl e
      | Inr (successful, messages) \<Rightarrow>
          if \<not> successful then Inl (AssertionError [])
          else
            (case tag_messages self channel messages of
               Inl e \<Rightarrow> Inl e
             | Inr tagged \<Rightarrow> fetch_channels self svc oldest cs (all_messages @ rev tagged)))"

text \<open>
  The final comprehension \<open>[m for m in all_messages if m['ts'] != oldest]\<close>; a message
  without \<open>ts\<close> raises \<open>KeyError\<close>.
\<close>

fun drop_oldest :: "string option \<Rightarrow> message list \<Rightarrow> exn + message list" where
  "drop_oldest oldest [] = Inr []"
| "drop_oldest oldest (m # ms) =
     (case m ''ts'' of
        None \<Rightarrow> Inl (KeyError ''ts'')
      | Some t \<Rightarrow>
          (case drop_oldest oldest ms of
             Inl e \<Rightarrow> Inl e
           | Inr r \<Rightarrow> Inr (if Some t \<noteq> oldest then m # r else r)))"

definition fetch_messages_since :: "slackard \<Rightarrow> slack \<Rightarrow> string option \<Rightarrow> exn + message list" where
  "fetch_messages_since self svc oldest =
     (case fetch_channels self svc oldest (map snd (channels self)) [] of
        Inl e \<Rightarrow> Inl e
      | Inr all_messages \<Rightarrow> drop_oldest oldest all_messages)"

subsection \<open>\<open>_resolve_channels\<close>\<close>

text \<open>
  The argument of \<open>_resolve_channels\<close>: \<open>None\<close>, one string, or a collection of
  strings.
\<close>

datatype selector = Sel_None | Sel_str string | Sel_list "string list"

definition unknown_channel :: "string \<Rightarrow> exn" where
  "unknown_channel channel = AssertionError (''\"'' @ channel @ ''\" is an unknown channel'')"

text \<open>The loop that fills \<open>result\<close>: an id is kept, a name is replaced by its id.\<close>

fun resolve_loop :: "slackard \<Rightarrow> string list \<Rightarrow> string list \<Rightarrow> exn + string list" where
  "resolve_loop self [] result = Inr result"
| "resolve_loop self (channel # cs) result =
     (if channel \<in> dom (chan_ids self) then resolve_loop self cs (result @ [channel])
      else
        (case map_of (channels self) channel of
           Some i \<Rightarrow> resolve_loop self cs (result @ [i])
         | None \<Rightarrow> Inl (unknown_channel channel)))"

text \<open>
  \<open>tuple(set(result))\<close> holds every element of \<open>result\<close> once, in an order Python does
  not fix; \<open>remdups\<close> stands for one such order, and the theorems below speak of the
  elements and of their distinctness only.
\<close>

definition resolve_channels :: "slackard \<Rightarrow> selector \<Rightarrow> exn + string list" where
  "resolve_channels self sel =
     (let cs = (case sel of
                  Sel_None \<Rightarrow> map fst (channels self)
                | Sel_str s \<Rightarrow> [s]
                | Sel_list l \<Rightarrow> l)
      in case resolve_loop self cs [] of
           Inl e \<Rightarrow> Inl e
         | Inr result \<Rightarrow> Inr (remdups result))"

subsection \<open>\<open>upload\<close>\<close>

text \<open>
  Attribute lookup on a \<open>Slackard\<close> object. The class defines no \<open>__getattr__\<close>, so
  a name resolves only if the class body or \<open>__init__\<close> binds it; any other name raises
  \<open>AttributeError\<close>. Of the bound names only \<open>_resolve_channels\<close> is a method that
  takes a channel selector.
\<close>

definition slackard_attributes :: "string list" where
  "slackard_attributes =
     [''subscribers'', ''commands'', ''firehoses'',
      ''__init__'', ''__str__'', ''_import_plugins'', ''_get_plugin_path'',
      ''_set_import_path'', ''_init_connection'', ''_fetch_messages_since'',
      ''_resolve_channels'', ''speak'', ''upload'', ''set_topic'', ''channel_info'',
      ''run'', ''subscribe'', ''command'', ''firehose'',
      ''config'', ''apikey'', ''botname'', ''botnick'', ''channels'', ''chan_ids'',
      ''plugins'', ''boticon'', ''botemoji'', ''slack'']"

datatype attribute =
    Resolver "slackard \<Rightarrow> selector \<Rightarrow> exn + string list"
  | Other_attribute

definition getattr :: "string \<Rightarrow> exn + attribute" where
  "getattr name =
     (if name \<notin> set slackard_attributes then Inl (AttributeError name)
      else if name = ''_resolve_channels'' then Inr (Resolver resolve_channels)
      else Inr Other_attribute)"

text \<open>The request that \<open>upload\<close> hands to \<open>slack.files.upload\<close>.\<close>

record upload_request =
  up_file :: string
  up_channels :: "string list"
  up_filename :: "string option"
  up_title :: string

text \<open>The loop of assertions over the resolved channels.\<close>

fun upload_check :: "slackard \<Rightarrow> string list \<Rightarrow> exn option" where
  "upload_check self [] = None"
| "upload_check self (chan # cs) =
     (let chan' = (case map_of (channels self) chan of Some i \<Rightarrow> i | None \<Rightarrow> chan)
      in if chan' \<in> dom (chan_ids self) then upload_check self cs
         else Some (AssertionError []))"

text \<open>
  \<open>upload\<close> first evaluates \<open>self.resolve_channels(channel)\<close>. With no title the
  format string has one placeholder and is given two arguments, the first of them
  \<open>None\<close>.
\<close>

definition upload ::
  "slackard \<Rightarrow> string \<Rightarrow> string option \<Rightarrow> string option \<Rightarrow> selector \<Rightarrow> exn + upload_request" where
  "upload self file' filename title channel =
     (case getattr ''resolve_channels'' of
        Inl e \<Rightarrow> Inl e
      | Inr Other_attribute \<Rightarrow> Inl (TypeError ''resolve_channels'')
      | Inr (Resolver resolve) \<Rightarrow>
          (case resolve self channel of
             Inl e \<Rightarrow> Inl e
           | Inr chans \<Rightarrow>
               (let title' = (case title of
                                None \<Rightarrow> ''(Upload by None)''
                              | Some t \<Rightarrow> t @ '' (Upload by '' @ botname self @ '')'')
                in case upload_check self chans of
                     Some e \<Rightarrow> Inl e
                   | None \<Rightarrow>
                       Inr \<lparr>up_file = file', up_channels = chans,
                            up_filename = filename, up_title = title'\<rparr>)))"

subsection \<open>The registry and the registration decorators\<close>

text \<open>
  A handler is a plugin function, named by a string. Each decorator wraps the function
  in a new \<open>_f\<close> that only forwards its arguments, so the wrapper is identified with the
  function it wraps.

  The regular expression library: \<open>re_compile p\<close> is
  \<open>re.compile(p, re.IGNORECASE)\<close>, \<open>None\<close> when it raises; \<open>re_search r t\<close> says
  whether \<open>r.search(t)\<close> finds a match; \<open>re_match_command nick t\<close> is what the
  command pattern of \<open>run\<close>, built from the nickname \<open>nick\<close>, finds at the start of
  \<open>t\<close>: the two groups of the match, or \<open>None\<close>.
\<close>

type_synonym handler = string

record 'rx re_library =
  re_compile :: "string \<Rightarrow> 'rx option"
  re_search :: "'rx \<Rightarrow> string \<Rightarrow> bool"
  re_match_command :: "string \<Rightarrow> string \<Rightarrow> (string \<times> string) option"

text \<open>The three lists of the class, each in the order of registration.\<close>

record 'rx registry =
  subscribers :: "(handler \<times> 'rx) list"
  commands :: "(handler \<times> string) list"
  firehoses :: "handler list"

text \<open>The argument of a decorator factory: a callable or a string.\<close>

datatype pyarg = Callable handler | Str string

text \<open>A line printed by a decorator.\<close>

datatype printed = Failed_to_compile handler

definition real_subscribe ::
  "'rx re_library \<Rightarrow> string \<Rightarrow> handler \<Rightarrow> 'rx registry \<Rightarrow> handler \<times> 'rx registry \<times> printed list" where
  "real_subscribe re pattern wrapped reg =
     (case re_compile re pattern of
        Some matcher \<Rightarrow>
          (wrapped, reg\<lparr>subscribers := subscribers reg @ [(wrapped, matcher)]\<rparr>, [])
      | None \<Rightarrow> (wrapped, reg, [Failed_to_compile wrapped]))"

definition subscribe ::
  "'rx re_library \<Rightarrow> pyarg \<Rightarrow>
     exn + (handler \<Rightarrow> 'rx registry \<Rightarrow> handler \<times> 'rx registry \<times> printed list)" where
  "subscribe re pattern =
     (case pattern of
        Callable f \<Rightarrow> Inl (TypeError ''Must supply pattern string'')
      | Str p \<Rightarrow> Inr (real_subscribe re p))"

definition real_command :: "string \<Rightarrow> handler \<Rightarrow> 'rx registry \<Rightarrow> handler \<times> 'rx registry" where
  "real_command command wrapped reg =
     (wrapped, reg\<lparr>commands := commands reg @ [(wrapped, command)]\<rparr>)"

definition command ::
  "pyarg \<Rightarrow> exn + (handler \<Rightarrow> 'rx registry \<Rightarrow> handler \<times> 'rx registry)" where
  "command cmd =
     (case cmd of
        Callable f \<Rightarrow> Inl (TypeError ''Must supply command string'')
      | Str c \<Rightarrow> Inr (real_command c))"


text \<open>
  What a plugin's \<open>@bot.subscribe(pattern)\<close> and \<open>@bot.command(cmd)\<close> above a function
  definition do: evaluate the factory, then apply its result to the function. The result
  is the exception raised, if any, the registry left behind and the lines printed.
\<close>

definition decorate_subscribe ::
  "'rx re_library \<Rightarrow> pyarg \<Rightarrow> handler \<Rightarrow> 'rx registry \<Rightarrow> exn option \<times> 'rx registry \<times> printed list" where
  "decorate_subscribe re pattern wrapped reg =
     (case subscribe re pattern of
        Inl e \<Rightarrow> (Some e, reg, [])
      | Inr decorator \<Rightarrow>
          (case decorator wrapped reg of (f, reg', out) \<Rightarrow> (None, reg', out)))"

definition decorate_command ::
  "pyarg \<Rightarrow> handler \<Rightarrow> 'rx registry \<Rightarrow> exn option \<times> 'rx registry" where
  "decorate_command cmd wrapped reg =
     (case command cmd of
        Inl e \<Rightarrow> (Some e, reg)
      | Inr decorator \<Rightarrow> (case decorator wrapped reg of (f, reg') \<Rightarrow> (None, reg')))"

subsection \<open>The command matcher of \<open>run\<close>\<close>

text \<open>
  \<open>run\<close> compiles \<open>'^{0}:\s*(\S+)\s*(.*)'.format(self.botnick)\<close> with
  \<open>re.IGNORECASE\<close> and applies it with \<open>match\<close>, which anchors at the start of the
  text. The nickname is pasted into the pattern unescaped. For a nickname without
  regular expression metacharacters (\<open>regex_literal\<close>) the pattern has the meaning
  that \<open>cmd_match\<close> computes; for any other nickname the pattern is whatever the
  library makes of it, and \<open>cmd_matcher\<close> asks the library.

  Read from left to right: the nickname, letters compared without regard to case; a
  colon; \<open>\s*\<close>, the longest run of white space; \<open>(\S+)\<close>, the longest run of other
  characters, which must not be empty (giving back white space cannot help, the next
  character would still be white space); \<open>\s*\<close> again; \<open>(.*)\<close>, everything up to
  the first newline. The last two parts match the empty string too, so nothing is ever
  given back. The two groups are the command and its arguments.
\<close>

definition is_space :: "char \<Rightarrow> bool" where
  "is_space c = (c \<in> set [CHR '' '', CHR 0x09, CHR 0x0A, CHR 0x0B, CHR 0x0C, CHR 0x0D])"

definition lower :: "char \<Rightarrow> char" where
  "lower c =
     (case map_of (zip ''ABCDEFGHIJKLMNOPQRSTUVWXYZ'' ''abcdefghijklmnopqrstuvwxyz'') c of
        Some l \<Rightarrow> l
      | None \<Rightarrow> c)"

definition regex_literal :: "string \<Rightarrow> bool" where
  "regex_literal nick = (\<forall>c \<in> set nick. c \<notin> set (CHR 0x5C # ''.^$*+?{}[]|()''))"

definition cmd_match :: "string \<Rightarrow> string \<Rightarrow> (string \<times> string) option" where
  "cmd_match nick txt =
     (if length nick < length txt
         \<and> map lower (take (length nick) txt) = map lower nick
         \<and> txt ! length nick = CHR '':''
      then
        (let after_colon = dropWhile is_space (drop (Suc (length nick)) txt);
             cmd = takeWhile (\<lambda>c. \<not> is_space c) after_colon;
             after_cmd = dropWhile is_space (dropWhile (\<lambda>c. \<not> is_space c) after_colon);
             args = takeWhile (\<lambda>c. c \<noteq> CHR 0x0A) after_cmd
         in if cmd = [] then None else Some (cmd, args))
      else None)"

definition cmd_matcher ::
  "'rx re_library \<Rightarrow> string \<Rightarrow> string \<Rightarrow> (string \<times> string) option" where
  "cmd_matcher re nick txt =
     (if regex_literal nick then cmd_match nick txt else re_match_command re nick txt)"

subsection \<open>The loop of \<open>run\<close>\<close>

text \<open>
  What the loop does that can be seen from outside: it prints a message, it calls a
  handler with a message, it calls a handler with an argument string and a message.
\<close>

datatype event =
    Print_message message
  | Call_msg handler message
  | Call_cmd handler string message

text \<open>
  The plugins: for every call the loop makes, whether the handler returns (\<open>None\<close>) or
  raises. The loop catches nothing, so an exception of a handler leaves the loop.
\<close>

type_synonym plugins = "event \<Rightarrow> exn option"

text \<open>\<open>for f in self.firehoses: f(message)\<close>\<close>

fun firehose_loop :: "plugins \<Rightarrow> message \<Rightarrow> handler list \<Rightarrow> event list \<times> exn option" where
  "firehose_loop P m [] = ([], None)"
| "firehose_loop P m (f # fs) =
     (case P (Call_msg f m) of
        Some e \<Rightarrow> ([Call_msg f m], Some e)
      | None \<Rightarrow> (case firehose_loop P m fs of (ev, r) \<Rightarrow> (Call_msg f m # ev, r)))"

text \<open>\<open>for (f, matcher) in self.subscribers: if matcher.search(message['text']): f(message)\<close>\<close>

fun subscriber_loop ::
  "'rx re_library \<Rightarrow> plugins \<Rightarrow> message \<Rightarrow> string \<Rightarrow> (handler \<times> 'rx) list \<Rightarrow> event list \<times> exn option" where
  "subscriber_loop re P m txt [] = ([], None)"
| "subscriber_loop re P m txt ((f, matcher) # fs) =
     (if re_search re matcher txt then
        (case P (Call_msg f m) of
           Some e \<Rightarrow> ([Call_msg f m], Some e)
         | None \<Rightarrow> (case subscriber_loop re P m txt fs of (ev, r) \<Rightarrow> (Call_msg f m # ev, r)))
      else subscriber_loop re P m txt fs)"

text \<open>\<open>for (f, command) in self.commands: if command == cmd: f(args, message)\<close>\<close>

fun command_loop ::
  "plugins \<Rightarrow> message \<Rightarrow> string \<Rightarrow> string \<Rightarrow> (handler \<times> string) list \<Rightarrow> event list \<times> exn option" where
  "command_loop P m cmd args [] = ([], None)"
| "command_loop P m cmd args ((f, c) # fs) =
     (if c = cmd then
        (case P (Call_cmd f args m) of
           Some e \<Rightarrow> ([Call_cmd f args m], Some e)
         | None \<Rightarrow> (case command_loop P m cmd args fs of (ev, r) \<Rightarrow> (Call_cmd f args m # ev, r)))
      else command_loop P m cmd args fs)"

text \<open>One statement after another: the second runs only if the first did not raise.\<close>

definition and_then ::
  "event list \<times> exn option \<Rightarrow> event list \<times> exn option \<Rightarrow> event list \<times> exn option" where
  "and_then a b =
     (case a of
        (ev, Some e) \<Rightarrow> (ev, Some e)
      | (ev, None) \<Rightarrow> (ev @ fst b, snd b))"

text \<open>
  The test that skips the bot's own messages. A missing \<open>subtype\<close>, or a missing
  \<open>username\<close> once the subtype is \<open>bot_message\<close>, raises \<open>KeyError\<close>, which the loop
  catches and passes over: the message is then handled like any other.
\<close>

definition self_produced :: "slackard \<Rightarrow> message \<Rightarrow> bool" where
  "self_produced self m =
     (case m ''subtype'' of
        None \<Rightarrow> False
      | Some st \<Rightarrow>
          if st = ''bot_message'' then
            (case m ''username'' of None \<Rightarrow> False | Some u \<Rightarrow> u = botname self)
          else False)"

text \<open>The three stages for a message that is handled, after it has been printed.\<close>

definition dispatch ::
  "'rx re_library \<Rightarrow> plugins \<Rightarrow> 'rx registry \<Rightarrow> slackard \<Rightarrow> message \<Rightarrow> string \<Rightarrow> event list \<times> exn option" where
  "dispatch re P reg self m txt =
     and_then (firehose_loop P m (firehoses reg))
       (and_then (subscriber_loop re P m txt (subscribers reg))
          (case cmd_matcher re (botnick self) txt of
             None \<Rightarrow> ([], None)
           | Some (cmd, args) \<Rightarrow> command_loop P m cmd args (commands reg)))"

text \<open>
  The body of \<open>for message in messages\<close>, from the watermark \<open>ts\<close> before the message to
  the watermark after it, the events and the exception that left the loop, if any.
\<close>

definition run_message ::
  "'rx re_library \<Rightarrow> plugins \<Rightarrow> 'rx registry \<Rightarrow> slackard \<Rightarrow> string \<Rightarrow> message \<Rightarrow> string \<times> event list \<times> exn option" where
  "run_message re P reg self ts m =
     (case m ''ts'' of
        None \<Rightarrow> (ts, [], Some (KeyError ''ts''))
      | Some t \<Rightarrow>
          (case m ''text'' of
             None \<Rightarrow> (t, [], None)
           | Some txt \<Rightarrow>
               if self_produced self m then (t, [], None)
               else
                 (case dispatch re P reg self m txt of
                    (ev, r) \<Rightarrow> (t, Print_message m # ev, r))))"

fun run_messages ::
  "'rx re_library \<Rightarrow> plugins \<Rightarrow> 'rx registry \<Rightarrow> slackard \<Rightarrow> string \<Rightarrow> message list \<Rightarrow> string \<times> event list \<times> exn option" where
  "run_messages re P reg self ts [] = (ts, [], None)"
| "run_messages re P reg self ts (m # ms) =
     (case run_message re P reg self ts m of
        (ts', ev, Some e) \<Rightarrow> (ts', ev, Some e)
      | (ts', ev, None) \<Rightarrow>
          (case run_messages re P reg self ts' ms of
             (ts'', ev', r) \<Rightarrow> (ts'', ev @ ev', r)))"

text \<open>
  One turn of \<open>while True\<close>, without the sleep: the fetch, any exception of which becomes
  a non-fatal error, then the loop over the messages.
\<close>

definition run_poll ::
  "'rx re_library \<Rightarrow> plugins \<Rightarrow> 'rx registry \<Rightarrow> slackard \<Rightarrow> slack \<Rightarrow> string \<Rightarrow> string \<times> event list \<times> exn option" where
  "run_poll re P reg self svc ts =
     (case fetch_messages_since self svc (Some ts) of
        Inl e \<Rightarrow> (ts, [], Some (SlackardNonFatalError (message_of e)))
      | Inr messages \<Rightarrow> run_messages re P reg self ts messages)"

subsection \<open>The calls the specification expects\<close>

text \<open>
  Written from the specification's words, to be compared with the loops above: every
  firehose handler in registration order; every subscriber whose pattern is found in the
  text; every command handler registered under the command parsed from the text, with
  the parsed arguments.
\<close>

definition firehose_calls :: "message \<Rightarrow> handler list \<Rightarrow> event list" where
  "firehose_calls m fs = map (\<lambda>f. Call_msg f m) fs"

definition subscriber_calls ::
  "'rx re_library \<Rightarrow> message \<Rightarrow> string \<Rightarrow> (handler \<times> 'rx) list \<Rightarrow> event list" where
  "subscriber_calls re m txt subs =
     map (\<lambda>(f, matcher). Call_msg f m) (filter (\<lambda>(f, matcher). re_search re matcher txt) subs)"

definition command_calls ::
  "string \<Rightarrow> message \<Rightarrow> string \<Rightarrow> (handler \<times> string) list \<Rightarrow> event list" where
  "command_calls nick m txt cmds =
     (case cmd_match nick txt of
        None \<Rightarrow> []
      | Some (cmd, args) \<Rightarrow>
          map (\<lambda>(f, c). Call_cmd f args m) (filter (\<lambda>(f, c). c = cmd) cmds))"

text \<open>
  The form \<open><botnick>: <command> <rest>\<close> of the specification, spelled out: the
  nickname up to the case of letters, a colon, white space (possibly none), the command
  (a non-empty run without white space), white space, the arguments (which start with
  a character that is not white space and reach to the end of their line), and whatever
  follows that line.
\<close>

definition command_form :: "string \<Rightarrow> string \<Rightarrow> string \<Rightarrow> string \<Rightarrow> bool" where
  "command_form nick tx cmd args =
     (\<exists>nick' ws1 ws2 rest.
        tx = nick' @ '':'' @ ws1 @ cmd @ ws2 @ args @ rest
        \<and> map lower nick' = map lower nick
        \<and> (\<forall>c \<in> set ws1. is_space c)
        \<and> cmd \<noteq> [] \<and> (\<forall>c \<in> set cmd. \<not> is_space c)
        \<and> (\<forall>c \<in> set ws2. is_space c)
        \<and> (ws2 = [] \<longrightarrow> args @ rest = [])
        \<and> (args @ rest \<noteq> [] \<longrightarrow> \<not> is_space (hd (args @ rest)))
        \<and> CHR 0x0A \<notin> set args
        \<and> (rest \<noteq> [] \<longrightarrow> hd rest = CHR 0x0A))"

text \<open>The calls made by the command stage.\<close>

fun is_command_call :: "event \<Rightarrow> bool" where
  "is_command_call (Call_cmd f args m) = True"
| "is_command_call ev = False"

text \<open>
  Calls made one after another until one raises: the calls made, the raising one last,
  and its exception.
\<close>

fun until_raise :: "plugins \<Rightarrow> event list \<Rightarrow> event list \<times> exn option" where
  "until_raise P [] = ([], None)"
| "until_raise P (c # cs) =
     (case P c of
        Some e \<Rightarrow> ([c], Some e)
      | None \<Rightarrow> (case until_raise P cs of (ev, r) \<Rightarrow> (c # ev, r)))"

text \<open>The message that an event carries.\<close>

fun event_message :: "event \<Rightarrow> message" where
  "event_message (Print_message m) = m"
| "event_message (Call_msg f m) = m"
| "event_message (Call_cmd f args m) = m"

text \<open>
  What the specification expects of one channel in a fetch with watermark \<open>T\<close>: the
  messages of the service's answer, each tagged with the channel's id and name, in the
  reverse of the service's order, without those whose timestamp is \<open>T\<close>.
\<close>

definition expected_batch :: "slackard \<Rightarrow> string \<Rightarrow> string \<Rightarrow> message list \<Rightarrow> message list" where
  "expected_batch self T channel ms =
     (case chan_ids self channel of
        None \<Rightarrow> []
      | Some name \<Rightarrow> filter (\<lambda>m. m ''ts'' \<noteq> Some T) (rev (map (tag channel name) ms)))"

subsection \<open>Concrete inputs\<close>

text \<open>
  A regular expression library for patterns without metacharacters: such a pattern,
  compiled with \<open>re.IGNORECASE\<close>, is found by \<open>search\<close> exactly where it occurs in the
  text up to the case of letters. Every other pattern is refused here; of those only
  \<open>(\<close>, which Python refuses too, is used below. No nickname with metacharacters
  is used below, so the command pattern of such a nickname is left without matches.
\<close>

fun occurs_in :: "string \<Rightarrow> string \<Rightarrow> bool" where
  "occurs_in p [] = (p = [])"
| "occurs_in p (c # cs) = (take (length p) (c # cs) = p \<or> occurs_in p cs)"

definition literal_re :: "string re_library" where
  "literal_re =
     \<lparr>re_compile = (\<lambda>p. if regex_literal p then Some (map lower p) else None),
      re_search = (\<lambda>r t. occurs_in r (map lower t)),
      re_match_command = (\<lambda>nick t. None)\<rparr>"

text \<open>
  A bot configured with \<open>channel: general, random\<close>, before and after it has connected
  to a service that lists three channels.
\<close>

definition fresh_bot :: slackard where
  "fresh_bot =
     \<lparr>botname = ''Slackard'', botnick = ''slack'',
      channels = [(''general'', []), (''random'', [])], chan_ids = Map.empty\<rparr>"

definition connected_bot :: slackard where
  "connected_bot =
     \<lparr>botname = ''Slackard'', botnick = ''slack'',
      channels = [(''general'', ''C01''), (''random'', ''C02'')],
      chan_ids = [''C01'' \<mapsto> ''general'', ''C02'' \<mapsto> ''random'']\<rparr>"

definition g200 :: message where
  "g200 = [''ts'' \<mapsto> ''200'', ''text'' \<mapsto> ''Hello world'']"

definition g100 :: message where
  "g100 = [''ts'' \<mapsto> ''100'', ''text'' \<mapsto> ''old news'']"

definition r150 :: message where
  "r150 = [''ts'' \<mapsto> ''150'', ''text'' \<mapsto> ''Slack: ping extra args'']"

text \<open>
  The service: \<open>general\<close> answers with two messages, newest first, the older of them the
  one at the watermark \<open>100\<close>; \<open>random\<close> answers with one message.
\<close>

definition two_channels :: slack where
  "two_channels =
     \<lparr>channels_list = Inr [(''general'', ''C01''), (''random'', ''C02''), (''dev'', ''C03'')],
      channels_history =
        (\<lambda>channel oldest.
           if channel = ''C01'' then Inr (True, [g200, g100])
           else if channel = ''C02'' then Inr (True, [r150])
           else Inl (Slacker_Error ''channel_not_found''))\<rparr>"

text \<open>A service that rejects the request for a reason other than the credential.\<close>

definition inactive_account :: slack where
  "inactive_account =
     \<lparr>channels_list = Inl (Slacker_Error ''account_inactive''),
      channels_history = (\<lambda>channel oldest. Inl (Slacker_Error ''account_inactive''))\<rparr>"

text \<open>
  A registry with one handler of each kind, and two sets of plugins: one in which every
  handler returns, one in which the handler \<open>log\<close> raises.
\<close>

definition one_of_each :: "string registry" where
  "one_of_each =
     \<lparr>subscribers = [(''greet'', ''hello'')], commands = [(''pong'', ''ping'')],
      firehoses = [''log'']\<rparr>"

definition all_return :: plugins where
  "all_return = (\<lambda>ev. None)"

definition log_raises :: plugins where
  "log_raises =
     (\<lambda>ev. case ev of
             Call_msg f m \<Rightarrow> if f = ''log'' then Some (Other_Exception ''boom'') else None
           | _ \<Rightarrow> None)"

text \<open>A message of the bot's own, with the text of a command.\<close>

definition own_ping :: message where
  "own_ping =
     [''ts'' \<mapsto> ''300'', ''text'' \<mapsto> ''slack: ping extra args'',
      ''subtype'' \<mapsto> ''bot_message'', ''username'' \<mapsto> ''Slackard'']"

text \<open>The answers of the service \<open>two_channels\<close>, by channel id.\<close>

definition two_batches :: "string \<Rightarrow> message list" where
  "two_batches channel = (if channel = ''C01'' then [g200, g100] else [r150])"

text \<open>A registry in which one handler is subscribed under two patterns.\<close>

definition greet_twice :: "string registry" where
  "greet_twice =
     \<lparr>subscribers = [(''greet'', ''hello''), (''greet'', ''world'')], commands = [],
      firehoses = []\<rparr>"




text \<open>The registry before any plugin has been imported.\<close>

definition no_handlers :: "string registry" where
  "no_handlers = \<lparr>subscribers = [], commands = [], firehoses = []\<rparr>"

section \<open>Properties\<close>

subsection \<open>\<open>upload\<close>\<close>

text \<open>
  C8. Every call of \<open>upload\<close> raises \<open>AttributeError\<close> for the name
  \<open>resolve_channels\<close>, whatever its arguments and whatever the state of the bot: the
  class binds \<open>_resolve_channels\<close> only. The exception is raised by the first statement,
  so no request is ever handed to the service.
\<close>

theorem upload_raises_AttributeError:
  "upload self file' filename title channel = Inl (AttributeError ''resolve_channels'')"
  by (simp add: upload_def getattr_def slackard_attributes_def)

subsection \<open>\<open>_init_connection\<close>: the kinds of failure\<close>

lemma populate_raises_KeyError:
  "fst (populate c_map xs self) = Some e \<Longrightarrow> \<exists>x. e = KeyError x"
  by (induction xs arbitrary: self) (auto split: option.splits)

text \<open>
  C7, as the code has it. \<open>_init_connection\<close> raises a fatal error exactly when the
  channel listing raises the service's own error with the message \<open>invalid_auth\<close>; it
  raises a non-fatal error exactly when the listing raises an exception that is not the
  service's own error; and the service's own error with any other message is raised
  again unchanged, neither fatal nor non-fatal.
\<close>

theorem init_connection_error_kinds:
  "((\<exists>s. fst (init_connection svc self) = Some (SlackardFatalError s))
      = (channels_list svc = Inl (Slacker_Error ''invalid_auth'')))
   \<and> ((\<exists>s. fst (init_connection svc self) = Some (SlackardNonFatalError s))
      = (\<exists>e. channels_list svc = Inl e \<and> \<not> is_slacker_error e))
   \<and> (\<forall>s. channels_list svc = Inl (Slacker_Error s) \<and> s \<noteq> ''invalid_auth''
          \<longrightarrow> init_connection svc self = (Some (Slacker_Error s), self))"
proof (cases "channels_list svc")
  case (Inl e)
  then show ?thesis by (cases e) (auto simp: init_connection_def)
next
  case (Inr listing)
  then show ?thesis by (auto simp: init_connection_def dest: populate_raises_KeyError)
qed

theorem init_connection_error_kinds_witness:
  "init_connection inactive_account fresh_bot
     = (Some (Slacker_Error ''account_inactive''), fresh_bot)
   \<and> (\<exists>s. fst (init_connection
               (inactive_account\<lparr>channels_list := Inl (Slacker_Error ''invalid_auth'')\<rparr>)
               fresh_bot) = Some (SlackardFatalError s))
   \<and> (\<exists>s. fst (init_connection
               (inactive_account\<lparr>channels_list := Inl (Other_Exception ''timed out'')\<rparr>)
               fresh_bot) = Some (SlackardNonFatalError s))"
  using init_connection_error_kinds [of inactive_account fresh_bot]
    init_connection_error_kinds
      [of "inactive_account\<lparr>channels_list := Inl (Slacker_Error ''invalid_auth'')\<rparr>" fresh_bot]
    init_connection_error_kinds
      [of "inactive_account\<lparr>channels_list := Inl (Other_Exception ''timed out'')\<rparr>" fresh_bot]
  by (simp add: inactive_account_def)

text \<open>
  C7 as stated fails: when the service answers the listing with its own error
  \<open>account_inactive\<close>, the exception that leaves \<open>_init_connection\<close> is that error, not
  a non-fatal one, and \<open>main\<close> ends the process instead of reconnecting.
\<close>

theorem init_connection_service_error_counterexample:
  "fst (init_connection inactive_account fresh_bot) = Some (Slacker_Error ''account_inactive'')
   \<and> main_on_exception (Slacker_Error ''account_inactive'') = Exit 1"
  by (simp add: init_connection_def inactive_account_def)

subsection \<open>The registration decorators\<close>

lemma literal_re_refuses: "re_compile literal_re ''('' = None"
  by (simp add: literal_re_def regex_literal_def)

lemma literal_re_accepts: "re_compile literal_re ''Hello'' = Some ''hello''"
  by (simp add: literal_re_def regex_literal_def lower_def)

text \<open>
  C9. \<open>subscribe\<close> given a callable raises \<open>TypeError\<close> and the registry is unchanged.
  Given a pattern that does not compile, it raises nothing, prints the failure and leaves
  the registry unchanged; given one that compiles, it appends the handler with the
  compiled matcher. \<open>command\<close> given a callable raises \<open>TypeError\<close> and the registry is
  unchanged; given a string, it appends the handler under that name.
\<close>

theorem registration_guards:
  "decorate_subscribe re (Callable h) wrapped reg
       = (Some (TypeError ''Must supply pattern string''), reg, [])
   \<and> (re_compile re p = None \<longrightarrow>
        decorate_subscribe re (Str p) wrapped reg = (None, reg, [Failed_to_compile wrapped]))
   \<and> (\<forall>matcher. re_compile re p = Some matcher \<longrightarrow>
        decorate_subscribe re (Str p) wrapped reg
          = (None, reg\<lparr>subscribers := subscribers reg @ [(wrapped, matcher)]\<rparr>, []))
   \<and> decorate_command (Callable h) wrapped reg
       = (Some (TypeError ''Must supply command string''), reg)
   \<and> decorate_command (Str c) wrapped reg
       = (None, reg\<lparr>commands := commands reg @ [(wrapped, c)]\<rparr>)"
  by (simp add: decorate_subscribe_def decorate_command_def subscribe_def command_def
      real_subscribe_def real_command_def)

theorem registration_guards_witness:
  "re_compile literal_re ''('' = None
   \<and> decorate_subscribe literal_re (Str ''('') ''greet'' one_of_each
       = (None, one_of_each, [Failed_to_compile ''greet''])
   \<and> decorate_subscribe literal_re (Str ''Hello'') ''greet'' one_of_each
       = (None, one_of_each\<lparr>subscribers := [(''greet'', ''hello''), (''greet'', ''hello'')]\<rparr>, [])"
  using registration_guards [of literal_re "''greet''" "''greet''" one_of_each "''(''" "''ping''"]
    registration_guards [of literal_re "''greet''" "''greet''" one_of_each "''Hello''" "''ping''"]
    literal_re_refuses literal_re_accepts
  by (simp add: one_of_each_def)

subsection \<open>The order of dispatch\<close>

text \<open>When every call a loop makes returns, the loop makes all the expected calls.\<close>

lemma firehose_loop_all_return:
  "\<forall>f \<in> set fs. P (Call_msg f m) = None \<Longrightarrow>
   firehose_loop P m fs = (firehose_calls m fs, None)"
  by (induction fs) (simp_all add: firehose_calls_def)

lemma subscriber_loop_all_return:
  "\<forall>ev \<in> set (subscriber_calls re m txt subs). P ev = None \<Longrightarrow>
   subscriber_loop re P m txt subs = (subscriber_calls re m txt subs, None)"
  by (induction subs) (auto simp: subscriber_calls_def)

lemma command_loop_all_return:
  "\<forall>(f, c) \<in> set cmds. c = cmd \<longrightarrow> P (Call_cmd f args m) = None \<Longrightarrow>
   command_loop P m cmd args cmds
     = (map (\<lambda>(f, c). Call_cmd f args m) (filter (\<lambda>(f, c). c = cmd) cmds), None)"
  by (induction cmds) auto

lemma command_stage_all_return:
  "\<forall>ev \<in> set (command_calls nick m txt cmds). P ev = None \<Longrightarrow>
   (case cmd_match nick txt of
      None \<Rightarrow> ([], None)
    | Some (cmd, args) \<Rightarrow> command_loop P m cmd args cmds)
     = (command_calls nick m txt cmds, None)"
  by (cases "cmd_match nick txt")
     (auto simp: command_calls_def intro!: command_loop_all_return)

lemma cmd_matcher_literal:
  "regex_literal nick \<Longrightarrow> cmd_matcher re nick tx = cmd_match nick tx"
  by (simp add: cmd_matcher_def)

lemma dispatch_all_return:
  assumes "regex_literal (botnick self)"
    and "\<forall>ev \<in> set (firehose_calls m (firehoses reg)). P ev = None"
    and "\<forall>ev \<in> set (subscriber_calls re m txt (subscribers reg)). P ev = None"
    and "\<forall>ev \<in> set (command_calls (botnick self) m txt (commands reg)). P ev = None"
  shows "dispatch re P reg self m txt
     = (firehose_calls m (firehoses reg) @ subscriber_calls re m txt (subscribers reg)
          @ command_calls (botnick self) m txt (commands reg), None)"
proof -
  have f: "firehose_loop P m (firehoses reg) = (firehose_calls m (firehoses reg), None)"
    using assms(2) by (intro firehose_loop_all_return) (simp add: firehose_calls_def)
  have s: "subscriber_loop re P m txt (subscribers reg)
      = (subscriber_calls re m txt (subscribers reg), None)"
    using assms(3) by (rule subscriber_loop_all_return)
  have c: "(case cmd_match (botnick self) txt of
      None \<Rightarrow> ([], None)
    | Some (cmd, args) \<Rightarrow> command_loop P m cmd args (commands reg))
     = (command_calls (botnick self) m txt (commands reg), None)"
    using assms(4) by (rule command_stage_all_return)
  show ?thesis
    unfolding dispatch_def cmd_matcher_literal [OF assms(1)] f s c by (simp add: and_then_def)
qed

lemma subscriber_calls_count:
  "count_list (subscriber_calls re m txt subs) (Call_msg h m)
     = length (filter (\<lambda>(f, matcher). f = h \<and> re_search re matcher txt) subs)"
  by (induction subs) (auto simp: subscriber_calls_def)

text \<open>
  Each loop is the sequence of its expected calls, run until one raises; so is the
  whole dispatch.
\<close>

lemma until_raise_append:
  "until_raise P (a @ b) = and_then (until_raise P a) (until_raise P b)"
  by (induction a) (auto simp: and_then_def split: option.splits prod.splits)

lemma firehose_loop_until_raise:
  "firehose_loop P m fs = until_raise P (firehose_calls m fs)"
  by (induction fs) (auto simp: firehose_calls_def split: option.splits prod.splits)

lemma subscriber_loop_until_raise:
  "subscriber_loop re P m tx subs = until_raise P (subscriber_calls re m tx subs)"
  by (induction subs) (auto simp: subscriber_calls_def split: option.splits prod.splits)

lemma command_loop_until_raise:
  "command_loop P m cmd args cmds
     = until_raise P (map (\<lambda>(f, c). Call_cmd f args m) (filter (\<lambda>(f, c). c = cmd) cmds))"
  by (induction cmds) (auto split: option.splits prod.splits)

lemma command_stage_until_raise:
  "(case cmd_match nick tx of
      None \<Rightarrow> ([], None)
    | Some (cmd, args) \<Rightarrow> command_loop P m cmd args cmds)
     = until_raise P (command_calls nick m tx cmds)"
  by (cases "cmd_match nick tx") (auto simp: command_calls_def command_loop_until_raise)

lemma dispatch_until_raise:
  "regex_literal (botnick self) \<Longrightarrow>
   dispatch re P reg self m tx
     = until_raise P (firehose_calls m (firehoses reg)
         @ subscriber_calls re m tx (subscribers reg)
         @ command_calls (botnick self) m tx (commands reg))"
  unfolding dispatch_def
  by (simp only: cmd_matcher_literal until_raise_append firehose_loop_until_raise
      subscriber_loop_until_raise command_stage_until_raise)

lemma until_raise_all_return:
  "\<forall>ev \<in> set cs. P ev = None \<Longrightarrow> until_raise P cs = (cs, None)"
  by (induction cs) auto

lemma until_raise_first_raise:
  "\<forall>ev \<in> set before. P ev = None \<Longrightarrow> P c = Some e \<Longrightarrow>
   until_raise P (before @ c # after) = (before @ [c], Some e)"
  by (induction before) auto

lemma run_message_until_raise:
  assumes "regex_literal (botnick self)"
    and "m ''ts'' = Some t" and "m ''text'' = Some tx" and "\<not> self_produced self m"
  shows "run_message re P reg self ts m
     = (t, Print_message m
            # fst (until_raise P (firehose_calls m (firehoses reg)
                     @ subscriber_calls re m tx (subscribers reg)
                     @ command_calls (botnick self) m tx (commands reg))),
        snd (until_raise P (firehose_calls m (firehoses reg)
                     @ subscriber_calls re m tx (subscribers reg)
                     @ command_calls (botnick self) m tx (commands reg))))"
  using assms by (simp add: run_message_def dispatch_until_raise split: prod.splits)

text \<open>
  Every message the loop receives has a timestamp: the fetch has read it.
\<close>

lemma drop_oldest_timestamps:
  "drop_oldest oldest ms = Inr out \<Longrightarrow> \<forall>m \<in> set out. m ''ts'' \<noteq> None"
  by (induction ms arbitrary: out) (auto split: option.splits sum.splits if_splits)

lemma fetched_messages_have_timestamps:
  "fetch_messages_since self svc oldest = Inr out \<Longrightarrow> \<forall>m \<in> set out. m ''ts'' \<noteq> None"
  by (auto simp: fetch_messages_since_def split: sum.splits dest: drop_oldest_timestamps)

text \<open>
  C2, as the code has it. The nickname has no regular expression metacharacter, and the
  message has a timestamp and a text and is not the bot's own. The calls in question
  are those of every firehose handler in registration order, then of every subscriber
  registration whose pattern is found in the text, in registration order, then of the
  handlers of the parsed command. The loop prints the message and makes these calls in
  this order until one raises. If every call returns, all are made and nothing is
  raised. If a call raises after the calls before it have returned, it is the last
  call made, and its exception leaves the loop. A handler is called by the subscriber
  stage as many times as it has registrations whose pattern is found in the text.
\<close>

theorem dispatch_order:
  assumes "regex_literal (botnick self)"
    and "m ''ts'' = Some t" and "m ''text'' = Some tx" and "\<not> self_produced self m"
    and "calls = firehose_calls m (firehoses reg)
                   @ subscriber_calls re m tx (subscribers reg)
                   @ command_calls (botnick self) m tx (commands reg)"
  shows "run_message re P reg self ts m
           = (t, Print_message m # fst (until_raise P calls), snd (until_raise P calls))
     \<and> ((\<forall>ev \<in> set calls. P ev = None) \<longrightarrow>
          run_message re P reg self ts m = (t, Print_message m # calls, None))
     \<and> (\<forall>before c after e.
           calls = before @ c # after \<and> (\<forall>ev \<in> set before. P ev = None) \<and> P c = Some e \<longrightarrow>
           run_message re P reg self ts m = (t, Print_message m # before @ [c], Some e))
     \<and> (\<forall>h. count_list (subscriber_calls re m tx (subscribers reg)) (Call_msg h m)
            = length (filter (\<lambda>(f, matcher). f = h \<and> re_search re matcher tx) (subscribers reg)))"
proof -
  have run: "run_message re P reg self ts m
           = (t, Print_message m # fst (until_raise P calls), snd (until_raise P calls))"
    unfolding assms(5) using assms(1-4) by (rule run_message_until_raise)
  have all: "run_message re P reg self ts m = (t, Print_message m # calls, None)"
    if "\<forall>ev \<in> set calls. P ev = None"
    using run until_raise_all_return [OF that] by simp
  have first: "run_message re P reg self ts m = (t, Print_message m # before @ [c], Some e)"
    if "calls = before @ c # after" "\<forall>ev \<in> set before. P ev = None" "P c = Some e"
    for before c after e
    using run until_raise_first_raise [OF that(2,3), of after] that(1) by simp
  from run all first show ?thesis
    by (simp add: subscriber_calls_count)
qed

lemma cmd_match_ping: "cmd_match ''slack'' ''Slack: ping extra args'' = Some (''ping'', ''extra args'')"
  by (simp add: cmd_match_def lower_def is_space_def)

lemma cmd_match_hello: "cmd_match ''slack'' ''Hello world'' = None"
  by (simp add: cmd_match_def lower_def)

lemma search_hello: "re_search literal_re ''hello'' ''Hello world''"
  by (simp add: literal_re_def lower_def)

lemma search_ping: "\<not> re_search literal_re ''hello'' ''Slack: ping extra args''"
  by (simp add: literal_re_def lower_def)

lemma search_world: "re_search literal_re ''world'' ''Hello world''"
  by (simp add: literal_re_def lower_def)

theorem dispatch_order_witness:
  "run_message literal_re all_return one_of_each connected_bot ''100'' g200
     = (''200'', [Print_message g200, Call_msg ''log'' g200, Call_msg ''greet'' g200], None)
   \<and> run_message literal_re all_return one_of_each connected_bot ''100'' r150
     = (''150'', [Print_message r150, Call_msg ''log'' r150,
                  Call_cmd ''pong'' ''extra args'' r150], None)
   \<and> run_message literal_re log_raises one_of_each connected_bot ''100'' g200
     = (''200'', [Print_message g200, Call_msg ''log'' g200], Some (Other_Exception ''boom''))"
proof -
  have lit: "regex_literal (botnick connected_bot)"
    by (simp add: regex_literal_def connected_bot_def)
  have g: "g200 ''ts'' = Some ''200''" "g200 ''text'' = Some ''Hello world''"
      "\<not> self_produced connected_bot g200"
    by (simp_all add: g200_def self_produced_def)
  have r: "r150 ''ts'' = Some ''150''" "r150 ''text'' = Some ''Slack: ping extra args''"
      "\<not> self_produced connected_bot r150"
    by (simp_all add: r150_def self_produced_def)
  have nick: "botnick connected_bot = ''slack''" by (simp add: connected_bot_def)
  have cg: "firehose_calls g200 (firehoses one_of_each)
        @ subscriber_calls literal_re g200 ''Hello world'' (subscribers one_of_each)
        @ command_calls (botnick connected_bot) g200 ''Hello world'' (commands one_of_each)
      = [Call_msg ''log'' g200, Call_msg ''greet'' g200]"
    using search_hello cmd_match_hello
    by (simp add: nick one_of_each_def firehose_calls_def subscriber_calls_def command_calls_def)
  have cr: "firehose_calls r150 (firehoses one_of_each)
        @ subscriber_calls literal_re r150 ''Slack: ping extra args'' (subscribers one_of_each)
        @ command_calls (botnick connected_bot) r150 ''Slack: ping extra args''
            (commands one_of_each)
      = [Call_msg ''log'' r150, Call_cmd ''pong'' ''extra args'' r150]"
    using search_ping cmd_match_ping
    by (simp add: nick one_of_each_def firehose_calls_def subscriber_calls_def command_calls_def)
  from dispatch_order [OF lit g cg [symmetric], of all_return "''100''"]
  have 1: "run_message literal_re all_return one_of_each connected_bot ''100'' g200
     = (''200'', [Print_message g200, Call_msg ''log'' g200, Call_msg ''greet'' g200], None)"
    by (simp add: all_return_def)
  from dispatch_order [OF lit r cr [symmetric], of all_return "''100''"]
  have 2: "run_message literal_re all_return one_of_each connected_bot ''100'' r150
     = (''150'', [Print_message r150, Call_msg ''log'' r150,
                  Call_cmd ''pong'' ''extra args'' r150], None)"
    by (simp add: all_return_def)
  from dispatch_order [OF lit g cg [symmetric], of log_raises "''100''"]
  have 3: "run_message literal_re log_raises one_of_each connected_bot ''100'' g200
     = (''200'', [Print_message g200, Call_msg ''log'' g200], Some (Other_Exception ''boom''))"
    by (simp add: log_raises_def)
  from 1 2 3 show ?thesis by simp
qed

text \<open>
  C2 as stated fails twice. The loop catches nothing, so a firehose handler that raises
  ends the dispatch: the subscriber \<open>greet\<close>, whose pattern is found in the text, is
  never called. And a handler subscribed under two patterns that are both found in the
  text is called twice, not once.
\<close>

theorem raising_firehose_counterexample:
  "g200 ''text'' = Some ''Hello world''
   \<and> \<not> self_produced connected_bot g200
   \<and> re_search literal_re ''hello'' ''Hello world''
   \<and> run_message literal_re log_raises one_of_each connected_bot ''100'' g200
       = (''200'', [Print_message g200, Call_msg ''log'' g200], Some (Other_Exception ''boom''))
   \<and> re_search literal_re ''world'' ''Hello world''
   \<and> run_message literal_re all_return greet_twice connected_bot ''100'' g200
       = (''200'', [Print_message g200, Call_msg ''greet'' g200, Call_msg ''greet'' g200], None)"
  using search_hello search_world cmd_match_hello
  by (simp add: run_message_def dispatch_def and_then_def g200_def self_produced_def
      log_raises_def all_return_def one_of_each_def greet_twice_def connected_bot_def
      cmd_matcher_def regex_literal_def)

subsection \<open>The bot's own messages\<close>

text \<open>Every event of a loop carries the message the loop was run for.\<close>

lemma firehose_loop_events:
  "ev \<in> set (fst (firehose_loop P m fs)) \<Longrightarrow> event_message ev = m"
  by (induction fs) (auto split: option.splits prod.splits)

lemma subscriber_loop_events:
  "ev \<in> set (fst (subscriber_loop re P m txt subs)) \<Longrightarrow> event_message ev = m"
  by (induction subs) (auto split: option.splits prod.splits if_splits)

lemma command_loop_events:
  "ev \<in> set (fst (command_loop P m cmd args cmds)) \<Longrightarrow> event_message ev = m"
  by (induction cmds) (auto split: option.splits prod.splits if_splits)

lemma and_then_events:
  "ev \<in> set (fst (and_then a b)) \<Longrightarrow> ev \<in> set (fst a) \<or> ev \<in> set (fst b)"
  by (auto simp: and_then_def split: prod.splits option.splits)

lemma dispatch_events:
  assumes "ev \<in> set (fst (dispatch re P reg self m txt))"
  shows "event_message ev = m"
proof -
  from assms consider
      "ev \<in> set (fst (firehose_loop P m (firehoses reg)))"
    | "ev \<in> set (fst (subscriber_loop re P m txt (subscribers reg)))"
    | "ev \<in> set (fst (case cmd_matcher re (botnick self) txt of
          None \<Rightarrow> ([], None)
        | Some (cmd, args) \<Rightarrow> command_loop P m cmd args (commands reg)))"
    unfolding dispatch_def by (blast dest: and_then_events)
  then show ?thesis
  proof cases
    case 1 then show ?thesis by (rule firehose_loop_events)
  next
    case 2 then show ?thesis by (rule subscriber_loop_events)
  next
    case 3 then show ?thesis
      by (cases "cmd_matcher re (botnick self) txt") (auto dest: command_loop_events)
  qed
qed

lemma run_message_events:
  assumes "ev \<in> set (fst (snd (run_message re P reg self ts m)))"
  shows "event_message ev = m \<and> \<not> self_produced self m"
proof (cases "m ''ts''")
  case None
  with assms show ?thesis by (simp add: run_message_def)
next
  case (Some t)
  show ?thesis
  proof (cases "m ''text''")
    case None
    with Some assms show ?thesis by (simp add: run_message_def)
  next
    case has_text: (Some tx)
    show ?thesis
    proof (cases "self_produced self m")
      case True
      with Some has_text assms show ?thesis by (simp add: run_message_def)
    next
      case False
      obtain evs r where d: "dispatch re P reg self m tx = (evs, r)"
        by (cases "dispatch re P reg self m tx")
      from assms Some has_text False d have "ev = Print_message m \<or> ev \<in> set evs"
        by (simp add: run_message_def)
      moreover have "e \<in> set evs \<Longrightarrow> event_message e = m" for e
        using dispatch_events [of e re P reg self m tx] d by simp
      ultimately show ?thesis using False by auto
    qed
  qed
qed

lemma run_messages_events:
  "ev \<in> set (fst (snd (run_messages re P reg self ts ms))) \<Longrightarrow>
   event_message ev \<in> set ms \<and> \<not> self_produced self (event_message ev)"
proof (induction ms arbitrary: ts)
  case Nil
  then show ?case by simp
next
  case (Cons m ms)
  obtain ts' ev' r where rm: "run_message re P reg self ts m = (ts', ev', r)"
    by (cases "run_message re P reg self ts m")
  have first: "e \<in> set ev' \<Longrightarrow> event_message e = m \<and> \<not> self_produced self m" for e
    using run_message_events [of e re P reg self ts m] rm by simp
  show ?case
  proof (cases r)
    case (Some e)
    with Cons.prems rm first show ?thesis by auto
  next
    case None
    obtain ts'' ev'' r' where rms: "run_messages re P reg self ts' ms = (ts'', ev'', r')"
      by (cases "run_messages re P reg self ts' ms")
    from Cons.prems rm None rms have "ev \<in> set ev' \<or> ev \<in> set ev''" by auto
    then show ?thesis
    proof
      assume "ev \<in> set ev'" with first show ?thesis by auto
    next
      assume "ev \<in> set ev''"
      with Cons.IH [of ts'] rms show ?thesis by auto
    qed
  qed
qed

lemma run_poll_events:
  "ev \<in> set (fst (snd (run_poll re P reg self svc ts))) \<Longrightarrow>
   \<not> self_produced self (event_message ev)"
  by (auto simp: run_poll_def split: sum.splits dest: run_messages_events)

text \<open>
  C5. A message whose subtype is \<open>bot_message\<close> and whose username is the configured
  bot name causes no event at all: it is not printed and no handler of any kind is
  called with it, in the body of the loop, in the loop over any list of messages, and
  in any turn of the polling loop, whatever the service answers.
\<close>

theorem own_messages_never_delivered:
  assumes "m ''subtype'' = Some ''bot_message''" and "m ''username'' = Some (botname self)"
  shows "fst (snd (run_message re P reg self ts m)) = []
     \<and> (\<forall>ev \<in> set (fst (snd (run_messages re P reg self ts ms))). event_message ev \<noteq> m)
     \<and> (\<forall>ev \<in> set (fst (snd (run_poll re P reg self svc ts))). event_message ev \<noteq> m)"
proof -
  have own: "self_produced self m"
    using assms by (simp add: self_produced_def)
  have "fst (snd (run_message re P reg self ts m)) = []"
    using own by (simp add: run_message_def split: option.splits)
  moreover have "\<forall>ev \<in> set (fst (snd (run_messages re P reg self ts ms))). event_message ev \<noteq> m"
    using own run_messages_events [of _ re P reg self ts ms] by blast
  moreover have "\<forall>ev \<in> set (fst (snd (run_poll re P reg self svc ts))). event_message ev \<noteq> m"
    using own run_poll_events [of _ re P reg self svc ts] by blast
  ultimately show ?thesis by simp
qed

theorem own_messages_never_delivered_witness:
  "own_ping ''subtype'' = Some ''bot_message''
   \<and> own_ping ''username'' = Some (botname connected_bot)
   \<and> fst (snd (run_message literal_re all_return one_of_each connected_bot ''100'' own_ping)) = []"
  using own_messages_never_delivered
    [of own_ping connected_bot literal_re all_return one_of_each "''100''" "[]" two_channels]
  by (simp add: own_ping_def connected_bot_def)

subsection \<open>Registering a firehose handler twice\<close>




subsection \<open>The watermark\<close>

text \<open>
  The loop assigns \<open>ts = message['ts']\<close> for every message in turn, so after a list of
  messages that raised nothing the watermark is the timestamp of the last of them.
\<close>

lemma run_message_watermark:
  "run_message re P reg self ts m = (ts', ev, None) \<Longrightarrow> m ''ts'' = Some ts'"
  by (auto simp: run_message_def split: option.splits if_splits prod.splits)

lemma run_messages_watermark:
  "run_messages re P reg self ts ms = (ts', ev, None) \<Longrightarrow> ms \<noteq> [] \<Longrightarrow>
   last ms ''ts'' = Some ts'"
proof (induction ms arbitrary: ts ev)
  case Nil
  then show ?case by simp
next
  case (Cons m ms)
  obtain t1 e1 r1 where rm: "run_message re P reg self ts m = (t1, e1, r1)"
    by (cases "run_message re P reg self ts m")
  with Cons.prems(1) have r1: "r1 = None" by (cases r1) auto
  obtain t2 e2 r2 where rms: "run_messages re P reg self t1 ms = (t2, e2, r2)"
    by (cases "run_messages re P reg self t1 ms")
  with Cons.prems(1) rm r1 have eq: "t2 = ts'" "r2 = None" by auto
  show ?case
  proof (cases "ms = []")
    case True
    with rms eq rm r1 show ?thesis by (auto dest: run_message_watermark)
  next
    case False
    with Cons.IH [of t1 e2] rms eq show ?thesis by simp
  qed
qed

lemma connected_bot_connects: "init_connection two_channels fresh_bot = (None, connected_bot)"
  by (simp add: init_connection_def two_channels_def fresh_bot_def connected_bot_def c_map_of_def)

lemma fetch_two_channels:
  "fetch_messages_since connected_bot two_channels (Some ''100'')
     = Inr [tag ''C01'' ''general'' g200, tag ''C02'' ''random'' r150]"
  by (simp add: fetch_messages_since_def two_channels_def connected_bot_def tag_def
      g200_def g100_def r150_def)

text \<open>
  C1 at a concrete input. The bot has connected with the channels \<open>general\<close> and
  \<open>random\<close>; since the watermark \<open>100\<close>, \<open>general\<close> has a message of timestamp
  \<open>200\<close> and \<open>random\<close> one of timestamp \<open>150\<close>. The fetch returns them in the order
  of the channels, and the poll leaves the watermark at \<open>150\<close>, the timestamp of the
  last message of the list, not at \<open>200\<close>, the largest.
\<close>

theorem watermark_after_two_channels:
  "init_connection two_channels fresh_bot = (None, connected_bot)
   \<and> fetch_messages_since connected_bot two_channels (Some ''100'')
       = Inr [tag ''C01'' ''general'' g200, tag ''C02'' ''random'' r150]
   \<and> tag ''C01'' ''general'' g200 ''ts'' = Some ''200''
   \<and> tag ''C02'' ''random'' r150 ''ts'' = Some ''150''
   \<and> max ''200'' ''150'' = ''200''
   \<and> fst (run_poll literal_re all_return no_handlers connected_bot two_channels ''100'') = ''150''"
proof -
  have "run_messages literal_re all_return no_handlers connected_bot ''100''
          [tag ''C01'' ''general'' g200, tag ''C02'' ''random'' r150]
        = (''150'', [Print_message (tag ''C01'' ''general'' g200),
                     Print_message (tag ''C02'' ''random'' r150)], None)"
    using cmd_match_ping cmd_match_hello
    by (simp add: run_message_def dispatch_def and_then_def tag_def g200_def r150_def
        self_produced_def no_handlers_def connected_bot_def cmd_matcher_def regex_literal_def)
  then have "fst (run_poll literal_re all_return no_handlers connected_bot two_channels ''100'')
      = ''150''"
    by (simp add: run_poll_def fetch_two_channels)
  then show ?thesis
    using connected_bot_connects fetch_two_channels by (simp add: tag_def g200_def r150_def)
qed

subsection \<open>The state after \<open>_init_connection\<close>\<close>

text \<open>
  A successful \<open>_init_connection\<close> keeps the configured names, gives every configured
  channel's id a name in \<open>chan_ids\<close>, and enters in \<open>chan_ids\<close> only pairs that
  \<open>channels\<close> has the other way round.
\<close>

lemma populate_keys:
  "populate c_map xs b = (r, b') \<Longrightarrow> set xs \<subseteq> set (map fst (channels b)) \<Longrightarrow>
   map fst (channels b') = map fst (channels b)"
proof (induction xs arbitrary: b)
  case Nil
  then show ?case by simp
next
  case (Cons x xs)
  show ?case
  proof (cases "c_map x")
    case None
    with Cons.prems show ?thesis by simp
  next
    case (Some i)
    let ?b = "b\<lparr>channels := AList.update x i (channels b), chan_ids := (chan_ids b)(i \<mapsto> x)\<rparr>"
    have keys: "map fst (channels ?b) = map fst (channels b)"
      using Cons.prems(2) by (simp add: update_keys)
    from Cons.prems(1) Some have run: "populate c_map xs ?b = (r, b')" by simp
    from Cons.prems(2) keys have "set xs \<subseteq> set (map fst (channels ?b))" by simp
    from Cons.IH [OF run this] keys show ?thesis by simp
  qed
qed

lemma populate_success:
  "populate c_map xs b = (None, b') \<Longrightarrow>
     map_of (channels b') = (\<lambda>k. if k \<in> set xs then c_map k else map_of (channels b) k)
   \<and> dom (chan_ids b') = dom (chan_ids b) \<union> {i. \<exists>x \<in> set xs. c_map x = Some i}
   \<and> (\<forall>i n. chan_ids b' i = Some n \<longrightarrow> chan_ids b i = Some n \<or> (n \<in> set xs \<and> c_map n = Some i))"
proof (induction xs arbitrary: b)
  case Nil
  then show ?case by auto
next
  case (Cons x xs)
  show ?case
  proof (cases "c_map x")
    case None
    with Cons.prems show ?thesis by simp
  next
    case (Some i)
    let ?b = "b\<lparr>channels := AList.update x i (channels b), chan_ids := (chan_ids b)(i \<mapsto> x)\<rparr>"
    from Cons.prems Some have run: "populate c_map xs ?b = (None, b')" by simp
    note IH = Cons.IH [OF run]
    have 1: "map_of (channels b') = (\<lambda>k. if k \<in> set (x # xs) then c_map k else map_of (channels b) k)"
      using IH Some by (auto simp: update_conv' fun_eq_iff)
    have 2: "dom (chan_ids b') = dom (chan_ids b) \<union> {i. \<exists>x \<in> set (x # xs). c_map x = Some i}"
      using IH Some by (auto split: if_splits)
    have 3: "\<forall>j n. chan_ids b' j = Some n \<longrightarrow> chan_ids b j = Some n \<or> (n \<in> set (x # xs) \<and> c_map n = Some j)"
    proof (intro allI impI)
      fix j n assume "chan_ids b' j = Some n"
      with IH have "chan_ids ?b j = Some n \<or> (n \<in> set xs \<and> c_map n = Some j)" by blast
      then show "chan_ids b j = Some n \<or> (n \<in> set (x # xs) \<and> c_map n = Some j)"
        using Some by (auto split: if_splits)
    qed
    from 1 2 3 show ?thesis by blast
  qed
qed

lemma init_connection_success:
  assumes "init_connection svc self0 = (None, self)"
    and "distinct (map fst (channels self0))"
  shows "map fst (channels self) = map fst (channels self0)"
    and "\<forall>(n, i) \<in> set (channels self). chan_ids self i \<noteq> None"
    and "\<forall>i n. chan_ids self i = Some n \<longrightarrow> (n, i) \<in> set (channels self)"
proof -
  from assms(1) obtain listing where l: "channels_list svc = Inr listing"
    and run: "populate (c_map_of listing) (map fst (channels self0))
                (self0\<lparr>chan_ids := Map.empty\<rparr>) = (None, self)"
    by (cases "channels_list svc") (auto simp: init_connection_def split: if_splits)
  let ?c = "c_map_of listing" and ?xs = "map fst (channels self0)"
  show keys: "map fst (channels self) = map fst (channels self0)"
    using populate_keys [OF run] by simp
  from populate_success [OF run]
  have m: "map_of (channels self) = (\<lambda>k. if k \<in> set ?xs then ?c k else map_of (channels self0) k)"
    and d: "dom (chan_ids self) = {i. \<exists>x \<in> set ?xs. ?c x = Some i}"
    and inv: "\<forall>i n. chan_ids self i = Some n \<longrightarrow> n \<in> set ?xs \<and> ?c n = Some i"
    by auto
  have dist: "distinct (map fst (channels self))"
    using keys assms(2) by simp
  have "chan_ids self i \<noteq> None" if ni: "(n, i) \<in> set (channels self)" for n i
  proof -
    from ni dist have "map_of (channels self) n = Some i" by simp
    moreover from ni have "n \<in> set ?xs"
      using keys by (metis fst_conv image_eqI set_map)
    ultimately have "?c n = Some i" using m by simp
    with \<open>n \<in> set ?xs\<close> d have "i \<in> dom (chan_ids self)" by blast
    then show ?thesis by auto
  qed
  then show "\<forall>(n, i) \<in> set (channels self). chan_ids self i \<noteq> None" by blast
  have "(n, i) \<in> set (channels self)" if "chan_ids self i = Some n" for i n
  proof -
    from that inv have "n \<in> set ?xs" "?c n = Some i" by auto
    with m have "map_of (channels self) n = Some i" by simp
    then show ?thesis by (rule map_of_SomeD)
  qed
  then show "\<forall>i n. chan_ids self i = Some n \<longrightarrow> (n, i) \<in> set (channels self)" by blast
qed

subsection \<open>\<open>_resolve_channels\<close>\<close>









subsection \<open>\<open>_fetch_messages_since\<close>\<close>

lemma tag_messages_named:
  "chan_ids self c = Some name \<Longrightarrow> tag_messages self c ms = Inr (map (tag c name) ms)"
  by (induction ms) simp_all

lemma fetch_channels_all:
  assumes "\<forall>c \<in> set cs. channels_history svc c oldest = Inr (True, batch c)"
    and "\<forall>c \<in> set cs. chan_ids self c \<noteq> None"
  shows "fetch_channels self svc oldest cs acc
     = Inr (acc @ concat (map (\<lambda>c. rev (map (tag c (the (chan_ids self c))) (batch c))) cs))"
  using assms
proof (induction cs arbitrary: acc)
  case Nil
  then show ?case by simp
next
  case (Cons c cs)
  from Cons.prems obtain name where n: "chan_ids self c = Some name" by auto
  from Cons.prems have h: "channels_history svc c oldest = Inr (True, batch c)" by simp
  have "fetch_channels self svc oldest (c # cs) acc
      = fetch_channels self svc oldest cs (acc @ rev (map (tag c name) (batch c)))"
    using h n by (simp add: tag_messages_named)
  also have "\<dots> = Inr ((acc @ rev (map (tag c name) (batch c)))
      @ concat (map (\<lambda>c. rev (map (tag c (the (chan_ids self c))) (batch c))) cs))"
    using Cons.prems by (intro Cons.IH) auto
  finally show ?case using n by simp
qed

lemma drop_oldest_all:
  "\<forall>m \<in> set ms. m ''ts'' \<noteq> None \<Longrightarrow>
   drop_oldest oldest ms = Inr (filter (\<lambda>m. m ''ts'' \<noteq> oldest) ms)"
  by (induction ms) auto

lemma tag_keys:
  "tag c n m ''ts'' = m ''ts''" "tag c n m ''chan_id'' = Some c" "tag c n m ''channel'' = Some n"
  by (simp_all add: tag_def)

lemma expected_batch_sorted:
  assumes "sorted_wrt (\<lambda>a b. the (b ''ts'') \<le> the (a ''ts'')) ms"
  shows "sorted_wrt (\<lambda>a b. the (a ''ts'') \<le> the (b ''ts'')) (expected_batch self T c ms)"
proof (cases "chan_ids self c")
  case None
  then show ?thesis by (simp add: expected_batch_def)
next
  case (Some name)
  have "sorted_wrt (\<lambda>a b. the (a ''ts'') \<le> the (b ''ts'')) (rev (map (tag c name) ms))"
    using assms by (simp add: sorted_wrt_rev sorted_wrt_map tag_keys)
  then show ?thesis
    using Some by (simp add: expected_batch_def sorted_wrt_filter)
qed

text \<open>
  C3. The bot has connected; the service answers the history call of every configured
  channel successfully with the messages \<open>batch c\<close>, each of which has a timestamp. Then
  the fetch with watermark \<open>T\<close> returns, and what it returns is the concatenation, in
  the order of the channels, of the expected batches. No returned message has the
  timestamp \<open>T\<close>; every message of an answer whose timestamp is greater than \<open>T\<close> is
  returned, tagged; every returned message carries the id of the channel it came from
  and the name the bot has for that id; and where the service lists a channel's
  messages newest first, the channel's batch is returned oldest first.
\<close>

theorem fetch_messages_since_spec:
  assumes "init_connection svc self0 = (None, self)"
    and "distinct (map fst (channels self0))"
    and "\<forall>c \<in> set (map snd (channels self)). channels_history svc c (Some T) = Inr (True, batch c)"
    and "\<forall>c \<in> set (map snd (channels self)). \<forall>m \<in> set (batch c). m ''ts'' \<noteq> None"
  shows "\<exists>out. fetch_messages_since self svc (Some T) = Inr out
     \<and> out = concat (map (\<lambda>c. expected_batch self T c (batch c)) (map snd (channels self)))
     \<and> (\<forall>m \<in> set out. m ''ts'' \<noteq> None \<and> m ''ts'' \<noteq> Some T)
     \<and> (\<forall>c \<in> set (map snd (channels self)). \<forall>m \<in> set (batch c). \<forall>t.
           m ''ts'' = Some t \<and> T < t \<longrightarrow>
           (\<exists>name. chan_ids self c = Some name \<and> tag c name m \<in> set out))
     \<and> (\<forall>c \<in> set (map snd (channels self)). \<forall>m \<in> set (expected_batch self T c (batch c)).
           m ''chan_id'' = Some c \<and> m ''channel'' = chan_ids self c
           \<and> (\<exists>name. chan_ids self c = Some name \<and> (name, c) \<in> set (channels self)))
     \<and> (\<forall>c \<in> set (map snd (channels self)).
           sorted_wrt (\<lambda>a b. the (b ''ts'') \<le> the (a ''ts'')) (batch c) \<longrightarrow>
           sorted_wrt (\<lambda>a b. the (a ''ts'') \<le> the (b ''ts'')) (expected_batch self T c (batch c)))"
proof -
  let ?ids = "map snd (channels self)"
  let ?out = "concat (map (\<lambda>c. expected_batch self T c (batch c)) ?ids)"
  have named: "chan_ids self c \<noteq> None" if "c \<in> set ?ids" for c
    using init_connection_success(2) [OF assms(1,2)] that by auto
  have inverse: "(name, c) \<in> set (channels self)" if "chan_ids self c = Some name" for c name
    using init_connection_success(3) [OF assms(1,2)] that by blast
  let ?all = "concat (map (\<lambda>c. rev (map (tag c (the (chan_ids self c))) (batch c))) ?ids)"
  have all: "fetch_channels self svc (Some T) ?ids [] = Inr ?all"
    using fetch_channels_all [of ?ids svc "Some T" batch self "[]"] assms(3) named by simp
  have ts: "\<forall>m \<in> set ?all. m ''ts'' \<noteq> None"
    using assms(4) by (auto simp: tag_keys)
  have batch_eq: "expected_batch self T c (batch c)
      = filter (\<lambda>m. m ''ts'' \<noteq> Some T) (rev (map (tag c (the (chan_ids self c))) (batch c)))"
    if "c \<in> set ?ids" for c
    using named [OF that] by (auto simp: expected_batch_def)
  have "filter (\<lambda>m. m ''ts'' \<noteq> Some T) ?all = ?out"
    using batch_eq by (simp add: filter_concat comp_def cong: map_cong)
  with all ts have fetch: "fetch_messages_since self svc (Some T) = Inr ?out"
    by (simp add: fetch_messages_since_def drop_oldest_all)
  have excl: "\<forall>m \<in> set ?out. m ''ts'' \<noteq> None \<and> m ''ts'' \<noteq> Some T"
    using assms(4) by (auto simp: expected_batch_def tag_keys split: option.splits)
  have compl: "\<exists>name. chan_ids self c = Some name \<and> tag c name m \<in> set ?out"
    if "c \<in> set ?ids" "m \<in> set (batch c)" "m ''ts'' = Some t" "T < t" for c m t
  proof -
    from named [OF that(1)] obtain name where n: "chan_ids self c = Some name" by auto
    from that(2-4) n have "tag c name m \<in> set (expected_batch self T c (batch c))"
      by (auto simp: expected_batch_def tag_keys)
    with that(1) n show ?thesis by auto
  qed
  have tagged: "m ''chan_id'' = Some c \<and> m ''channel'' = chan_ids self c
           \<and> (\<exists>name. chan_ids self c = Some name \<and> (name, c) \<in> set (channels self))"
    if "c \<in> set ?ids" "m \<in> set (expected_batch self T c (batch c))" for c m
  proof -
    from named [OF that(1)] obtain name where n: "chan_ids self c = Some name" by auto
    with that(2) inverse [OF n] show ?thesis
      by (auto simp: expected_batch_def tag_keys)
  qed
  from fetch excl compl tagged expected_batch_sorted show ?thesis
    by (intro exI [of _ ?out] conjI ballI allI impI) blast+
qed

theorem fetch_messages_since_spec_witness:
  "fetch_messages_since connected_bot two_channels (Some ''100'')
     = Inr [tag ''C01'' ''general'' g200, tag ''C02'' ''random'' r150]"
proof -
  have d: "distinct (map fst (channels fresh_bot))"
    by (simp add: fresh_bot_def)
  have h: "\<forall>c \<in> set (map snd (channels connected_bot)).
      channels_history two_channels c (Some ''100'') = Inr (True, two_batches c)"
    by (simp add: connected_bot_def two_channels_def two_batches_def)
  have t: "\<forall>c \<in> set (map snd (channels connected_bot)). \<forall>m \<in> set (two_batches c). m ''ts'' \<noteq> None"
    by (simp add: connected_bot_def two_batches_def g200_def g100_def r150_def)
  from fetch_messages_since_spec [OF connected_bot_connects d h t]
  show ?thesis
    by (simp add: connected_bot_def expected_batch_def two_batches_def tag_def
        g200_def g100_def r150_def)
qed

subsection \<open>Commands\<close>

text \<open>The command matcher accepts exactly the texts of the command form.\<close>

lemma dropWhile_hd_not: "xs = [] \<or> \<not> P (hd xs) \<Longrightarrow> dropWhile P xs = xs"
  by (cases xs) auto

lemma takeWhile_hd_not: "xs = [] \<or> \<not> P (hd xs) \<Longrightarrow> takeWhile P xs = []"
  by (cases xs) auto

lemma cmd_match_of_form:
  assumes "command_form nick tx cmd args"
  shows "cmd_match nick tx = Some (cmd, args)"
proof -
  from assms obtain nick' ws1 ws2 rest where
    tx: "tx = nick' @ '':'' @ ws1 @ cmd @ ws2 @ args @ rest"
    and nick: "map lower nick' = map lower nick"
    and ws1: "\<forall>c \<in> set ws1. is_space c"
    and cmd: "cmd \<noteq> []" "\<forall>c \<in> set cmd. \<not> is_space c"
    and ws2: "\<forall>c \<in> set ws2. is_space c"
    and ws2_empty: "ws2 = [] \<longrightarrow> args @ rest = []"
    and start: "args @ rest \<noteq> [] \<longrightarrow> \<not> is_space (hd (args @ rest))"
    and nl: "CHR 0x0A \<notin> set args"
    and rest: "rest \<noteq> [] \<longrightarrow> hd rest = CHR 0x0A"
    unfolding command_form_def by blast
  let ?R = "ws2 @ args @ rest"
  have len: "length nick' = length nick"
    using nick by (metis length_map)
  have 1: "length nick < length tx" using tx len by simp
  have 2: "take (length nick) tx = nick'" using tx len by simp
  have 3: "tx ! length nick = CHR '':''" using tx len by (simp add: nth_append)
  have 4: "drop (Suc (length nick)) tx = ws1 @ cmd @ ?R" using tx len by simp
  have hd_cmd: "\<not> is_space (hd cmd)" using cmd by (cases cmd) auto
  have 5: "dropWhile is_space (ws1 @ cmd @ ?R) = cmd @ ?R"
  proof -
    have "dropWhile is_space (ws1 @ cmd @ ?R) = dropWhile is_space (cmd @ ?R)"
      using ws1 by (simp add: dropWhile_append2)
    also have "\<dots> = cmd @ ?R"
      using cmd hd_cmd by (intro dropWhile_hd_not) (cases cmd, auto)
    finally show ?thesis .
  qed
  have R_start: "?R = [] \<or> \<not> (\<not> is_space (hd ?R))"
    using ws2 ws2_empty by (cases ws2) auto
  have 6: "takeWhile (\<lambda>c. \<not> is_space c) (cmd @ ?R) = cmd"
    using cmd(2) takeWhile_hd_not [where xs = "?R" and P = "\<lambda>c. \<not> is_space c", OF R_start]
    by (simp add: takeWhile_append2)
  have 7: "dropWhile (\<lambda>c. \<not> is_space c) (cmd @ ?R) = ?R"
    using cmd(2) dropWhile_hd_not [where xs = "?R" and P = "\<lambda>c. \<not> is_space c", OF R_start]
    by (simp add: dropWhile_append2)
  have 8: "dropWhile is_space ?R = args @ rest"
  proof -
    have "dropWhile is_space ?R = dropWhile is_space (args @ rest)"
      using ws2 by (simp add: dropWhile_append2)
    also have "\<dots> = args @ rest"
      using start by (intro dropWhile_hd_not) auto
    finally show ?thesis .
  qed
  have 9: "takeWhile (\<lambda>c. c \<noteq> CHR 0x0A) (args @ rest) = args"
  proof -
    have "takeWhile (\<lambda>c. c \<noteq> CHR 0x0A) rest = []"
      using rest by (intro takeWhile_hd_not) auto
    moreover have "\<forall>c \<in> set args. c \<noteq> CHR 0x0A" using nl by auto
    ultimately show ?thesis by (simp add: takeWhile_append2)
  qed
  show ?thesis
    unfolding cmd_match_def Let_def 4 5 6 7 8 9 using 1 2 3 nick cmd(1) by simp
qed

lemma form_of_cmd_match:
  assumes "cmd_match nick tx = Some (cmd, args)"
  shows "command_form nick tx cmd args"
proof -
  let ?n = "length nick"
  let ?D = "drop (Suc ?n) tx"
  let ?AC = "dropWhile is_space ?D"
  let ?R = "dropWhile (\<lambda>c. \<not> is_space c) ?AC"
  let ?A = "dropWhile is_space ?R"
  let ?rest = "dropWhile (\<lambda>c. c \<noteq> CHR 0x0A) ?A"
  from assms have len: "?n < length tx"
    and nick: "map lower (take ?n tx) = map lower nick"
    and colon: "tx ! ?n = CHR '':''"
    and cmd: "cmd = takeWhile (\<lambda>c. \<not> is_space c) ?AC" "cmd \<noteq> []"
    and args: "args = takeWhile (\<lambda>c. c \<noteq> CHR 0x0A) ?A"
    by (auto simp: cmd_match_def Let_def split: if_splits)
  have "tx = take ?n tx @ tx ! ?n # ?D"
    using len by (rule id_take_nth_drop)
  also have "?D = takeWhile is_space ?D @ ?AC"
    by (rule takeWhile_dropWhile_id [symmetric])
  also have "?AC = cmd @ ?R"
    unfolding cmd(1) by (rule takeWhile_dropWhile_id [symmetric])
  also have "?R = takeWhile is_space ?R @ ?A"
    by (rule takeWhile_dropWhile_id [symmetric])
  also have "?A = args @ ?rest"
    unfolding args by (rule takeWhile_dropWhile_id [symmetric])
  finally have tx: "tx = take ?n tx @ '':'' @ takeWhile is_space ?D @ cmd
      @ takeWhile is_space ?R @ args @ ?rest"
    using colon by simp
  have R_start: "?R \<noteq> [] \<Longrightarrow> is_space (hd ?R)"
    using hd_dropWhile [of "\<lambda>c. \<not> is_space c" ?AC] by simp
  have ws2_empty: "takeWhile is_space ?R = [] \<longrightarrow> args @ ?rest = []"
  proof
    assume e: "takeWhile is_space ?R = []"
    have "?R = []"
    proof (rule ccontr)
      assume ne: "?R \<noteq> []"
      then obtain c cs where R: "?R = c # cs" by (cases ?R) auto
      with R_start ne have "is_space c" by simp
      with R e show False by simp
    qed
    then have A: "?A = []" by (simp only: dropWhile.simps)
    show "args @ ?rest = []" unfolding args A by simp
  qed
  have A_start: "args @ ?rest \<noteq> [] \<longrightarrow> \<not> is_space (hd (args @ ?rest))"
  proof
    assume "args @ ?rest \<noteq> []"
    moreover have "args @ ?rest = ?A" using args by simp
    ultimately show "\<not> is_space (hd (args @ ?rest))"
      using hd_dropWhile [of is_space ?R] by simp
  qed
  have rest: "?rest \<noteq> [] \<longrightarrow> hd ?rest = CHR 0x0A"
    using hd_dropWhile [of "\<lambda>c. c \<noteq> CHR 0x0A" ?A] by auto
  have "\<forall>c \<in> set (takeWhile is_space ?D). is_space c"
    and "\<forall>c \<in> set cmd. \<not> is_space c"
    and "\<forall>c \<in> set (takeWhile is_space ?R). is_space c"
    and "CHR 0x0A \<notin> set args"
    using cmd(1) args by (auto dest: set_takeWhileD)
  with tx nick cmd(2) ws2_empty A_start rest show ?thesis
    unfolding command_form_def by blast
qed

lemma cmd_match_iff: "cmd_match nick tx = Some (cmd, args) \<longleftrightarrow> command_form nick tx cmd args"
  using cmd_match_of_form form_of_cmd_match by blast

lemma firehose_loop_no_command:
  "ev \<in> set (fst (firehose_loop P m fs)) \<Longrightarrow> \<not> is_command_call ev"
  by (induction fs) (auto split: option.splits prod.splits)

lemma subscriber_loop_no_command:
  "ev \<in> set (fst (subscriber_loop re P m tx subs)) \<Longrightarrow> \<not> is_command_call ev"
  by (induction subs) (auto split: option.splits prod.splits if_splits)

lemma dispatch_no_command:
  assumes "regex_literal (botnick self)"
    and "cmd_match (botnick self) tx = None"
    and "ev \<in> set (fst (dispatch re P reg self m tx))"
  shows "\<not> is_command_call ev"
proof -
  from assms have "ev \<in> set (fst (firehose_loop P m (firehoses reg)))
      \<or> ev \<in> set (fst (subscriber_loop re P m tx (subscribers reg)))"
    unfolding dispatch_def cmd_matcher_literal [OF assms(1)] by (auto dest!: and_then_events)
  then show ?thesis
    using firehose_loop_no_command subscriber_loop_no_command by blast
qed

text \<open>
  C4, as the code has it. The nickname has no regular expression metacharacter, and the
  message has a timestamp and a text and is not the bot's own. If the text has the
  command form with command \<open>cmd\<close> and arguments \<open>args\<close>, and every handler called
  returns, then the matcher extracts \<open>cmd\<close> and \<open>args\<close> and, after the firehose and
  subscriber calls, the loop calls every handler registered under exactly \<open>cmd\<close>, in
  registration order, with \<open>args\<close> and the message. If the text has the command form
  for no command and arguments, the matcher fails and no command handler is called,
  whatever the handlers do.
\<close>

theorem command_dispatch:
  assumes "regex_literal (botnick self)"
    and "m ''ts'' = Some t" and "m ''text'' = Some tx" and "\<not> self_produced self m"
  shows "(command_form (botnick self) tx cmd args
          \<and> (\<forall>ev \<in> set (firehose_calls m (firehoses reg)
                  @ subscriber_calls re m tx (subscribers reg)
                  @ map (\<lambda>(f, c). Call_cmd f args m) (filter (\<lambda>(f, c). c = cmd) (commands reg))).
                P ev = None)
          \<longrightarrow> cmd_match (botnick self) tx = Some (cmd, args)
              \<and> run_message re P reg self ts m
                 = (t, Print_message m # firehose_calls m (firehoses reg)
                         @ subscriber_calls re m tx (subscribers reg)
                         @ map (\<lambda>(f, c). Call_cmd f args m)
                             (filter (\<lambda>(f, c). c = cmd) (commands reg)), None))
     \<and> ((\<forall>cmd args. \<not> command_form (botnick self) tx cmd args)
          \<longrightarrow> cmd_match (botnick self) tx = None
              \<and> (\<forall>ev \<in> set (fst (snd (run_message re P reg self ts m))). \<not> is_command_call ev))"
proof (intro conjI impI)
  assume a: "command_form (botnick self) tx cmd args
          \<and> (\<forall>ev \<in> set (firehose_calls m (firehoses reg)
                  @ subscriber_calls re m tx (subscribers reg)
                  @ map (\<lambda>(f, c). Call_cmd f args m) (filter (\<lambda>(f, c). c = cmd) (commands reg))).
                P ev = None)"
  then show parsed: "cmd_match (botnick self) tx = Some (cmd, args)"
    by (simp add: cmd_match_of_form)
  then have calls: "command_calls (botnick self) m tx (commands reg)
      = map (\<lambda>(f, c). Call_cmd f args m) (filter (\<lambda>(f, c). c = cmd) (commands reg))"
    by (simp add: command_calls_def)
  have "dispatch re P reg self m tx
     = (firehose_calls m (firehoses reg) @ subscriber_calls re m tx (subscribers reg)
          @ command_calls (botnick self) m tx (commands reg), None)"
  proof (rule dispatch_all_return)
    show "regex_literal (botnick self)" by (rule assms(1))
    show "\<forall>ev \<in> set (firehose_calls m (firehoses reg)). P ev = None"
      using a by simp
    show "\<forall>ev \<in> set (subscriber_calls re m tx (subscribers reg)). P ev = None"
      using a by simp
    show "\<forall>ev \<in> set (command_calls (botnick self) m tx (commands reg)). P ev = None"
      unfolding calls using a by simp
  qed
  then show "run_message re P reg self ts m
                 = (t, Print_message m # firehose_calls m (firehoses reg)
                         @ subscriber_calls re m tx (subscribers reg)
                         @ map (\<lambda>(f, c). Call_cmd f args m)
                             (filter (\<lambda>(f, c). c = cmd) (commands reg)), None)"
    using assms(2-4) calls by (simp add: run_message_def)
next
  assume no: "\<forall>cmd args. \<not> command_form (botnick self) tx cmd args"
  show none: "cmd_match (botnick self) tx = None"
  proof (cases "cmd_match (botnick self) tx")
    case None
    then show ?thesis .
  next
    case (Some p)
    then have "command_form (botnick self) tx (fst p) (snd p)"
      by (intro form_of_cmd_match) simp
    with no show ?thesis by blast
  qed
  show "\<forall>ev \<in> set (fst (snd (run_message re P reg self ts m))). \<not> is_command_call ev"
  proof
    fix ev assume ev: "ev \<in> set (fst (snd (run_message re P reg self ts m)))"
    obtain evs r where d: "dispatch re P reg self m tx = (evs, r)"
      by (cases "dispatch re P reg self m tx")
    from ev assms(2-4) d have "ev = Print_message m \<or> ev \<in> set evs"
      by (simp add: run_message_def)
    moreover have "e \<in> set evs \<Longrightarrow> \<not> is_command_call e" for e
      using dispatch_no_command [OF assms(1) none, of e re P reg m] d by simp
    ultimately show "\<not> is_command_call ev" by auto
  qed
qed

lemma slack_is_literal: "regex_literal (botnick connected_bot)"
  by (simp add: regex_literal_def connected_bot_def)

theorem command_dispatch_witness:
  "command_form ''slack'' ''Slack: ping extra args'' ''ping'' ''extra args''
   \<and> run_message literal_re all_return one_of_each connected_bot ''100'' r150
       = (''150'', [Print_message r150, Call_msg ''log'' r150,
                    Call_cmd ''pong'' ''extra args'' r150], None)
   \<and> cmd_match ''slack'' ''Hello world'' = None
   \<and> list_all (\<lambda>ev. \<not> is_command_call ev)
        (fst (snd (run_message literal_re all_return one_of_each connected_bot ''100'' g200)))"
proof -
  have form: "command_form ''slack'' ''Slack: ping extra args'' ''ping'' ''extra args''"
    using cmd_match_ping by (rule form_of_cmd_match)
  have no_form: "\<forall>cmd args. \<not> command_form ''slack'' ''Hello world'' cmd args"
    using cmd_match_hello cmd_match_of_form [of "''slack''" "''Hello world''"] by fastforce
  have r: "r150 ''ts'' = Some ''150''" "r150 ''text'' = Some ''Slack: ping extra args''"
      "\<not> self_produced connected_bot r150"
    by (simp_all add: r150_def self_produced_def)
  have g: "g200 ''ts'' = Some ''200''" "g200 ''text'' = Some ''Hello world''"
      "\<not> self_produced connected_bot g200"
    by (simp_all add: g200_def self_produced_def)
  have nick: "botnick connected_bot = ''slack''" by (simp add: connected_bot_def)
  from command_dispatch [OF slack_is_literal r, of "''ping''" "''extra args''" one_of_each
      literal_re all_return "''100''"] form search_ping
  have 1: "run_message literal_re all_return one_of_each connected_bot ''100'' r150
       = (''150'', [Print_message r150, Call_msg ''log'' r150,
                    Call_cmd ''pong'' ''extra args'' r150], None)"
    by (simp add: nick all_return_def one_of_each_def firehose_calls_def subscriber_calls_def)
  from command_dispatch [OF slack_is_literal g, of "''ping''" "''extra args''" one_of_each
      literal_re all_return "''100''"] no_form
  have 2: "cmd_match ''slack'' ''Hello world'' = None
      \<and> list_all (\<lambda>ev. \<not> is_command_call ev)
        (fst (snd (run_message literal_re all_return one_of_each connected_bot ''100'' g200)))"
    by (simp add: nick list_all_iff)
  from form 1 2 show ?thesis by simp
qed

text \<open>
  C4 as stated fails for the bot's own messages: a message with the text
  \<open>slack: ping extra args\<close>, subtype \<open>bot_message\<close> and the bot's name is skipped
  before the command stage, so the handler registered under \<open>ping\<close> is not called.
\<close>

theorem own_command_counterexample:
  "own_ping ''text'' = Some ''slack: ping extra args''
   \<and> cmd_match (botnick connected_bot) ''slack: ping extra args'' = Some (''ping'', ''extra args'')
   \<and> commands one_of_each = [(''pong'', ''ping'')]
   \<and> run_message literal_re all_return one_of_each connected_bot ''100'' own_ping
       = (''300'', [], None)"
  by (simp add: own_ping_def run_message_def self_produced_def connected_bot_def one_of_each_def
      cmd_match_def lower_def is_space_def)

end
